theory Spec2Isabelle
  imports Complex_Main "HOL-Library.Word" "HOL-Library.Signed_Division"
begin

section \<open>Basic types\<close>

text \<open>
  Go's \<open>uint64\<close> is a 64-bit word: \<open>+\<close>, \<open>-\<close> and \<open>mod\<close> are the unsigned machine
  operations and \<open>\<le>\<close>, \<open><\<close> compare unsigned. Go's \<open>int\<close> is taken at its 64-bit
  width; its values are written as mathematical integers with the two's complement
  wrap-around applied explicitly (\<open>int64_wrap\<close>). A \<open>[]byte\<close> is a list of 8-bit words.
\<close>

type_synonym uint64 = "64 word"
type_synonym bytes = "8 word list"

datatype panic = DivideByZero | IndexOutOfRange | NilMapAssignment | NilDereference

definition int64_wrap :: "int \<Rightarrow> int" where
  "int64_wrap i = signed_take_bit 63 i"

definition MaxUint64 :: uint64 where
  "MaxUint64 = 18446744073709551615"

section \<open>Wire messages\<close>

text \<open>
  Modelled from the spec: the package \<open>smartbftprotos\<close> is not among the sources. The
  outer wire message is a tagged union of \<open>PrePrepare | Prepare | Commit | ViewChange |
  ViewData | NewView | HeartBeat | HeartBeatResponse | StateTransferRequest |
  StateTransferResponse\<close>; the three view-phase sub-messages carry \<open>View\<close> and \<open>Seq\<close>
  (a \<open>Prepare\<close> also \<open>Digest\<close> and \<open>Signature\<close>, as \<open>StorePrepares\<close> builds it). A
  \<open>*protos.Message\<close> may be the nil pointer, and a message may have no content set; the
  generated getters return nil in both cases.
\<close>

record PrePrepare =
  pp_View :: uint64
  pp_Seq :: uint64

record Prepare =
  prp_View :: uint64
  prp_Seq :: uint64
  prp_Digest :: string
  prp_Signature :: bytes

record Commit =
  cmt_View :: uint64
  cmt_Seq :: uint64

datatype Content =
    C_PrePrepare PrePrepare
  | C_Prepare Prepare
  | C_Commit Commit
  | C_ViewChange
  | C_ViewData
  | C_NewView
  | C_HeartBeat
  | C_HeartBeatResponse
  | C_StateTransferRequest
  | C_StateTransferResponse

datatype Message = Message (Content: "Content option")

fun GetPrePrepare :: "Message option \<Rightarrow> PrePrepare option" where
  "GetPrePrepare (Some (Message (Some (C_PrePrepare pp)))) = Some pp"
| "GetPrePrepare _ = None"

fun GetPrepare :: "Message option \<Rightarrow> Prepare option" where
  "GetPrepare (Some (Message (Some (C_Prepare prp)))) = Some prp"
| "GetPrepare _ = None"

fun GetCommit :: "Message option \<Rightarrow> Commit option" where
  "GetCommit (Some (Message (Some (C_Commit cmt)))) = Some cmt"
| "GetCommit _ = None"

text \<open>
  Modelled from the spec: \<open>IsViewMessage\<close> is called by the controller and defined
  outside the sources. A view-phase message is one containing a \<open>PrePrepare\<close>, a
  \<open>Prepare\<close> or a \<open>Commit\<close>.
\<close>

definition IsViewMessage :: "Message option \<Rightarrow> bool" where
  "IsViewMessage m =
     (GetCommit m \<noteq> None \<or> GetPrepare m \<noteq> None \<or> GetPrePrepare m \<noteq> None)"

section \<open>util.go\<close>

definition viewNumber :: "Message option \<Rightarrow> uint64" where
  "viewNumber m =
     (case GetPrePrepare m of
        Some pp \<Rightarrow> pp_View pp
      | None \<Rightarrow>
          (case GetPrepare m of
             Some prp \<Rightarrow> prp_View prp
           | None \<Rightarrow>
               (case GetCommit m of
                  Some cmt \<Rightarrow> cmt_View cmt
                | None \<Rightarrow> MaxUint64)))"

definition proposalSequence :: "Message option \<Rightarrow> uint64" where
  "proposalSequence m =
     (case GetPrePrepare m of
        Some pp \<Rightarrow> pp_Seq pp
      | None \<Rightarrow>
          (case GetPrepare m of
             Some prp \<Rightarrow> prp_Seq prp
           | None \<Rightarrow>
               (case GetCommit m of
                  Some cmt \<Rightarrow> cmt_Seq cmt
                | None \<Rightarrow> MaxUint64)))"

text \<open>
  \<open>getLeaderID\<close> sorts the caller's slice in place and then indexes it. The model
  returns the slice as the call leaves it together with the result; \<open>view % N\<close> panics
  when \<open>N\<close> is zero and the index expression panics when it is not below the length.
\<close>

definition getLeaderID :: "uint64 \<Rightarrow> uint64 \<Rightarrow> uint64 list \<Rightarrow> uint64 list \<times> (panic + uint64)" where
  "getLeaderID view n nodes =
     (let sorted = sort nodes in
      if n = 0 then (sorted, Inl DivideByZero)
      else if unat (view mod n) < length sorted
        then (sorted, Inr (sorted ! unat (view mod n)))
        else (sorted, Inl IndexOutOfRange))"

subsection \<open>Quorum arithmetic\<close>

text \<open>
  \<open>computeQuorum\<close> mixes integer and \<open>float64\<close> arithmetic. Every \<open>float64\<close> value it
  forms before the final halving is a whole number, so such a value is represented by
  that whole number. A \<open>float64\<close> has a 53-bit significand: the representable whole
  numbers of magnitude \<open>a\<close> are the multiples of \<open>ulp_of a\<close>, and conversion and addition
  round the exact result to the nearest representable number, ties to the even
  significand. Halving a \<open>float64\<close> is exact, and so is \<open>math.Ceil\<close>. Converting a
  \<open>float64\<close> outside the range of \<open>int\<close> back to \<open>int\<close> has no result fixed by the
  language; the model returns \<open>None\<close> there.
\<close>

function ulp_of :: "int \<Rightarrow> int" where
  "ulp_of a = (if a < 2 ^ 53 then 1 else 2 * ulp_of (a div 2))"
  by pat_completeness auto
termination
  by (relation "measure nat") auto

declare ulp_of.simps [simp del]

definition round_to_float64 :: "int \<Rightarrow> int" where
  "round_to_float64 i =
     (let a = \<bar>i\<bar>; u = ulp_of a; q = a div u; r = a mod u;
          q' = (if 2 * r > u \<or> (2 * r = u \<and> odd q) then q + 1 else q)
      in sgn i * (q' * u))"

definition float64_of_uint64 :: "uint64 \<Rightarrow> int" where
  "float64_of_uint64 x = round_to_float64 (uint x)"

definition float64_of_int :: "int \<Rightarrow> int" where
  "float64_of_int i = round_to_float64 i"

definition float64_add :: "int \<Rightarrow> int \<Rightarrow> int" where
  "float64_add x y = round_to_float64 (x + y)"

definition float64_half :: "int \<Rightarrow> rat" where
  "float64_half x = of_int x / 2"

definition math_Ceil :: "rat \<Rightarrow> int" where
  "math_Ceil x = \<lceil>x\<rceil>"

definition int_of_float64 :: "int \<Rightarrow> int option" where
  "int_of_float64 x = (if - (2 ^ 63) \<le> x \<and> x < 2 ^ 63 then Some x else None)"

text \<open>The package-level function: it returns the pair \<open>(Q, F)\<close>.\<close>

definition computeQuorum :: "uint64 \<Rightarrow> (int \<times> int) option" where
  "computeQuorum n =
     (let F = int64_wrap (sint n - 1) sdiv 3 in
      case int_of_float64
             (math_Ceil (float64_half
                (float64_add (float64_add (float64_of_uint64 n) (float64_of_int F)) 1))) of
        None \<Rightarrow> None
      | Some Q \<Rightarrow> Some (Q, F))"

text \<open>
  The property the quorum formula is documented to have, for a cluster of \<open>n\<close> nodes:
  \<open>F = \<lfloor>(n - 1) / 3\<rfloor>\<close>, \<open>Q = \<lceil>(n + F + 1) / 2\<rceil>\<close>, and two sets of \<open>Q\<close> nodes share at
  least \<open>F + 1\<close> nodes, that is \<open>2 * Q - n \<ge> F + 1\<close>.
\<close>

definition quorum_spec :: "uint64 \<Rightarrow> bool" where
  "quorum_spec n =
     (case computeQuorum n of
        None \<Rightarrow> False
      | Some (Q, F) \<Rightarrow>
          F = (uint n - 1) div 3 \<and>
          Q = \<lceil>(of_int (uint n) + of_int F + 1) / (2 :: rat)\<rceil> \<and>
          2 * Q - uint n \<ge> F + 1)"

subsection \<open>Vote sets\<close>

text \<open>
  A buffered channel is its capacity and the queue of buffered elements. The field
  \<open>history\<close> is a ghost: it records every element that ever entered the channel, in
  order, so that statements about what is "ever added" can be made after elements were
  received. A nil map and a nil channel (the zero values of the struct's fields) are
  \<open>None\<close>: reading a nil map finds nothing, writing to it panics, and a send on a nil
  channel blocks forever.
\<close>

record 'a chan =
  cap :: nat
  buf :: "'a list"
  history :: "'a list"

definition chan_send :: "'a \<Rightarrow> 'a chan \<Rightarrow> 'a chan" where
  "chan_send x ch = ch\<lparr>buf := buf ch @ [x], history := history ch @ [x]\<rparr>"

record vote =
  vote_Message :: "Message option"
  sender :: uint64

record voteSet =
  validVote :: "uint64 \<Rightarrow> Message option \<Rightarrow> bool"
  voted :: "(uint64 \<rightharpoonup> unit) option"
  votes :: "vote chan option"

text \<open>
  \<open>clear\<close> drains the old channel and then replaces both the map and the channel by
  fresh ones of size \<open>n\<close>; the drained channel is dropped.
\<close>

definition clear :: "uint64 \<Rightarrow> voteSet \<Rightarrow> voteSet" where
  "clear n vs =
     vs\<lparr>voted := Some Map.empty, votes := Some \<lparr>cap = unat n, buf = [], history = []\<rparr>\<rparr>"

text \<open>
  A call of \<open>registerVote\<close> returns, panics, or blocks in its final send. When it
  blocks the voter is already marked in \<open>voted\<close> and the vote is pending.
\<close>

datatype registerVote_result =
    Returned voteSet
  | Panicked panic
  | Blocked voteSet vote

definition registerVote :: "voteSet \<Rightarrow> uint64 \<Rightarrow> Message option \<Rightarrow> registerVote_result" where
  "registerVote vs voter message =
     (if \<not> validVote vs voter message then Returned vs
      else case voted vs of
        None \<Rightarrow> Panicked NilMapAssignment
      | Some m \<Rightarrow>
          if m voter \<noteq> None then Returned vs
          else
            let vs' = vs\<lparr>voted := Some (m(voter := Some ()))\<rparr>;
                v = \<lparr>vote_Message = message, sender = voter\<rparr>
            in (case votes vs' of
                  None \<Rightarrow> Blocked vs' v
                | Some ch \<Rightarrow>
                    if length (buf ch) < cap ch
                    then Returned (vs'\<lparr>votes := Some (chan_send v ch)\<rparr>)
                    else Blocked vs' v))"

text \<open>
  A vote set in use: the goroutine that registers votes, and a consumer that receives
  from the channel. While a send is pending the registering goroutine makes no further
  call, and after a panic it makes none at all. A receive takes the oldest buffered
  vote and lets a pending send complete; on an unbuffered channel it takes the pending
  vote directly. A receive with nothing to take changes nothing.
\<close>

record voteSet_run =
  vset :: voteSet
  pending :: "vote option"
  crashed :: bool

datatype voteSet_op = RegisterVote uint64 "Message option" | ReceiveVote

fun voteSet_step :: "voteSet_run \<Rightarrow> voteSet_op \<Rightarrow> voteSet_run" where
  "voteSet_step st (RegisterVote voter message) =
     (if crashed st \<or> pending st \<noteq> None then st
      else case registerVote (vset st) voter message of
        Returned vs' \<Rightarrow> st\<lparr>vset := vs'\<rparr>
      | Panicked p \<Rightarrow> st\<lparr>crashed := True\<rparr>
      | Blocked vs' v \<Rightarrow> st\<lparr>vset := vs', pending := Some v\<rparr>)"
| "voteSet_step st ReceiveVote =
     (case votes (vset st) of
        None \<Rightarrow> st
      | Some ch \<Rightarrow>
          (case (buf ch, pending st) of
             ([], None) \<Rightarrow> st
           | ([], Some v) \<Rightarrow>
               st\<lparr>vset := (vset st)\<lparr>votes := Some (ch\<lparr>history := history ch @ [v]\<rparr>)\<rparr>,
                  pending := None\<rparr>
           | (x # xs, None) \<Rightarrow>
               st\<lparr>vset := (vset st)\<lparr>votes := Some (ch\<lparr>buf := xs\<rparr>)\<rparr>\<rparr>
           | (x # xs, Some v) \<Rightarrow>
               st\<lparr>vset := (vset st)\<lparr>votes := Some (chan_send v (ch\<lparr>buf := xs\<rparr>))\<rparr>,
                  pending := None\<rparr>))"

definition voteSet_start :: "uint64 \<Rightarrow> voteSet \<Rightarrow> voteSet_run" where
  "voteSet_start n vs0 = \<lparr>vset = clear n vs0, pending = None, crashed = False\<rparr>"

definition ever_added :: "voteSet_run \<Rightarrow> vote list" where
  "ever_added st = (case votes (vset st) of None \<Rightarrow> [] | Some ch \<Rightarrow> history ch)"

section \<open>controller.go\<close>

text \<open>
  The controller's collaborators (logger, request inspector, request pool, transport,
  failure detector, batcher, the running view) are interfaces implemented outside this
  file. A call to one of them is recorded as an event, in program order; the arguments
  of log calls are left out. The interfaces the controller is configured with are taken
  to be set, and the calls are taken to return. The request pool, whose answer
  \<open>SubmitRequest\<close> passes on, is an explicit interface value over a pool state. The
  future \<open>viewEnd\<close> is a field the controller assigns itself: it is nil until \<open>Start\<close>
  sets it, and a method call on the nil interface panics.
\<close>

record RequestInfo =
  ClientID :: string
  RequestInfo_ID :: string

datatype error = Error string

record View =
  View_N :: uint64
  LeaderID :: uint64
  SelfID :: uint64
  Quorum :: int
  Number :: uint64
  ProposalSequence :: uint64

datatype Future = Future View

datatype call =
    Logger_Debugf string
  | Logger_Warnf string
  | RequestInspector_RequestID bytes
  | RequestPool_Submit bytes
  | Comm_SendTransaction uint64 bytes
  | FailureDetector_Complain
  | View_HandleMessage uint64 "Message option"
  | View_Abort View
  | View_Start View
  | Future_Wait Future
  | Batcher_Reset

record 'p RequestPool =
  Submit :: "bytes \<Rightarrow> 'p \<Rightarrow> error option \<times> 'p"

text \<open>
  The fields of the controller that its methods read or assign. \<open>leaderToken\<close> is a
  channel of capacity one carrying no data: the number of buffered tokens, or \<open>None\<close>
  for the nil channel of a controller that was not started.
\<close>

record Controller =
  ID :: uint64
  N :: uint64
  quorum :: int
  currView :: View
  currViewNumber :: uint64
  viewEnd :: "Future option"
  leaderToken :: "nat option"

definition getCurrentViewNumber :: "Controller \<Rightarrow> uint64" where
  "getCurrentViewNumber c = currViewNumber c"

definition setCurrentViewNumber :: "uint64 \<Rightarrow> Controller \<Rightarrow> Controller" where
  "setCurrentViewNumber v c = c\<lparr>currViewNumber := v\<rparr>"

definition leaderID :: "Controller \<Rightarrow> panic + uint64" where
  "leaderID c =
     (if N c = 0 then Inl DivideByZero else Inr (getCurrentViewNumber c mod N c))"

definition iAmTheLeader :: "Controller \<Rightarrow> panic + (bool \<times> uint64)" where
  "iAmTheLeader c =
     (case leaderID c of Inl p \<Rightarrow> Inl p | Inr leader \<Rightarrow> Inr (leader = ID c, leader))"

text \<open>The method of the controller: it returns \<open>q\<close> alone.\<close>

definition Controller_computeQuorum :: "Controller \<Rightarrow> (int \<times> call list) option" where
  "Controller_computeQuorum c =
     (let f = int64_wrap (sint (N c) - 1) sdiv 3 in
      case int_of_float64
             (math_Ceil (float64_half
                (float64_add (float64_add (float64_of_uint64 (N c)) (float64_of_int f)) 1))) of
        None \<Rightarrow> None
      | Some q \<Rightarrow>
          Some (q, [Logger_Debugf
            ''The number of nodes (N) is %d, F is %d, and the quorum size is %d'']))"

definition SubmitRequest ::
    "'p RequestPool \<Rightarrow> Controller \<Rightarrow> bytes \<Rightarrow> 'p \<Rightarrow> error option \<times> call list \<times> 'p \<times> Controller" where
  "SubmitRequest pool c request p =
     (case Submit pool request p of
        (Some err, p') \<Rightarrow>
          (Some err,
           [RequestInspector_RequestID request, RequestPool_Submit request,
            Logger_Warnf ''Request %s was not submitted, error: %s''],
           p', c)
      | (None, p') \<Rightarrow>
          (None,
           [RequestInspector_RequestID request, RequestPool_Submit request,
            Logger_Debugf ''Request %s was submitted''],
           p', c))"

definition OnRequestTimeout :: "Controller \<Rightarrow> bytes \<Rightarrow> RequestInfo \<Rightarrow> panic + call list" where
  "OnRequestTimeout c request info =
     (case iAmTheLeader c of
        Inl p \<Rightarrow> Inl p
      | Inr (iAm, leader) \<Rightarrow>
          if iAm
          then Inr [Logger_Warnf
            ''Request %s timeout expired, this node is the leader, nothing to do'']
          else Inr [Logger_Warnf
            ''Request %s timeout expired, forwarding request to leader: %d'',
            Comm_SendTransaction leader request])"

definition OnLeaderFwdRequestTimeout :: "Controller \<Rightarrow> bytes \<Rightarrow> RequestInfo \<Rightarrow> panic + call list" where
  "OnLeaderFwdRequestTimeout c request info =
     (case iAmTheLeader c of
        Inl p \<Rightarrow> Inl p
      | Inr (iAm, leader) \<Rightarrow>
          if iAm
          then Inr [Logger_Warnf
            ''Request %s leader-forwarding timeout expired, this node is the leader, nothing to do'']
          else Inr [Logger_Warnf
            ''Request %s leader-forwarding timeout expired, complaining about leader: %d'',
            FailureDetector_Complain])"

definition ProcessMessages :: "Controller \<Rightarrow> uint64 \<Rightarrow> Message option \<Rightarrow> call list" where
  "ProcessMessages c sender_id m =
     (if IsViewMessage m then [View_HandleMessage sender_id m] else []) @
     [Logger_Debugf ''Node %d handled message %v from %d with seq %d'']"

definition startView :: "uint64 \<Rightarrow> Controller \<Rightarrow> panic + (Future \<times> call list \<times> Controller)" where
  "startView proposalSeq c =
     (case leaderID c of
        Inl p \<Rightarrow> Inl p
      | Inr leader \<Rightarrow>
          let view = \<lparr>View_N = N c, LeaderID = leader, SelfID = ID c, Quorum = quorum c,
                      Number = getCurrentViewNumber c, ProposalSequence = proposalSeq\<rparr>;
              c' = c\<lparr>currView := view\<rparr>
          in Inr (Future view,
                  [Logger_Debugf ''Starting view with number %d'', View_Start view], c'))"

definition acquireLeaderToken :: "Controller \<Rightarrow> Controller" where
  "acquireLeaderToken c =
     (case leaderToken c of
        None \<Rightarrow> c
      | Some k \<Rightarrow> if k < 1 then c\<lparr>leaderToken := Some (k + 1)\<rparr> else c)"

definition relinquishLeaderToken :: "Controller \<Rightarrow> Controller" where
  "relinquishLeaderToken c =
     (case leaderToken c of
        None \<Rightarrow> c
      | Some k \<Rightarrow> if 0 < k then c\<lparr>leaderToken := Some (k - 1)\<rparr> else c)"

text \<open>
  \<open>changeView\<close> returns the panic that ended it, if any, the calls it made and the
  controller as it leaves it. On a controller that was not started \<open>viewEnd\<close> is nil and
  \<open>c.viewEnd.Wait()\<close> panics, before the view number is assigned.
\<close>

definition changeView :: "uint64 \<Rightarrow> uint64 \<Rightarrow> Controller \<Rightarrow> panic option \<times> call list \<times> Controller" where
  "changeView newViewNumber newProposalSequence c =
     (let c1 = relinquishLeaderToken c;
          latestView = getCurrentViewNumber c1
      in if latestView > newViewNumber
         then (None, [Logger_Debugf ''Got view change to %d but already at %d''], c1)
         else
           let calls0 = [Logger_Debugf ''Aborting current view with number %d'',
                         View_Abort (currView c1)]
           in (case viewEnd c1 of
                 None \<Rightarrow> (Some NilDereference, calls0, c1)
               | Some ended \<Rightarrow>
                   let calls1 = calls0 @ [Future_Wait ended];
                       c2 = setCurrentViewNumber newViewNumber c1
                   in (case startView newProposalSequence c2 of
                         Inl p \<Rightarrow> (Some p, calls1, c2)
                       | Inr (fut, calls2, c3) \<Rightarrow>
                           let c4 = c3\<lparr>viewEnd := Some fut\<rparr> in
                           (case iAmTheLeader c4 of
                              Inl p \<Rightarrow> (Some p, calls1 @ calls2, c4)
                            | Inr (iAm, leader) \<Rightarrow>
                                if iAm
                                then (None, calls1 @ calls2 @ [Batcher_Reset],
                                      acquireLeaderToken c4)
                                else (None, calls1 @ calls2, c4)))))"

text \<open>
  The run loop applies the view changes it receives one after the other; a panic ends
  the goroutine.
\<close>

fun changeViews :: "(uint64 \<times> uint64) list \<Rightarrow> Controller \<Rightarrow> Controller" where
  "changeViews [] c = c"
| "changeViews ((v, s) # rest) c =
     (case changeView v s c of
        (None, calls, c') \<Rightarrow> changeViews rest c'
      | (Some p, calls, c') \<Rightarrow> c')"

text \<open>
  \<open>Start\<close> of the controller, up to the point where it launches the run loop: it makes
  the channels, computes the quorum, sets the view number and starts the first view,
  whose future becomes \<open>viewEnd\<close>. The result is \<open>None\<close> where the quorum has no value
  fixed by the language.
\<close>

definition Controller_Start ::
    "uint64 \<Rightarrow> uint64 \<Rightarrow> Controller \<Rightarrow> (panic option \<times> call list \<times> Controller) option" where
  "Controller_Start startViewNumber startProposalSequence c =
     (let c1 = c\<lparr>leaderToken := Some 0\<rparr> in
      case Controller_computeQuorum c1 of
        None \<Rightarrow> None
      | Some (q, calls0) \<Rightarrow>
          let c2 = c1\<lparr>quorum := q, currViewNumber := startViewNumber\<rparr> in
          (case startView startProposalSequence c2 of
             Inl p \<Rightarrow> Some (Some p, calls0, c2)
           | Inr (fut, calls1, c3) \<Rightarrow>
               let c4 = c3\<lparr>viewEnd := Some fut\<rparr> in
               (case iAmTheLeader c4 of
                  Inl p \<Rightarrow> Some (Some p, calls0 @ calls1, c4)
                | Inr (iAm, leader) \<Rightarrow>
                    Some (None, calls0 @ calls1,
                          if iAm then acquireLeaderToken c4 else c4))))"

text \<open>
  What the timeout handlers are expected to do. The current leader of the controller's
  view, on the membership \<open>nodes\<close>, is the node that the rule \<open>sort(nodes)[v mod N]\<close>
  names; the request is to be forwarded to that node, and a complaint raised.
\<close>

definition current_leader :: "Controller \<Rightarrow> uint64 list \<Rightarrow> panic + uint64" where
  "current_leader c nodes = snd (getLeaderID (getCurrentViewNumber c) (N c) nodes)"

definition forwards_to_current_leader ::
    "Controller \<Rightarrow> uint64 list \<Rightarrow> bytes \<Rightarrow> RequestInfo \<Rightarrow> bool" where
  "forwards_to_current_leader c nodes request info =
     (case (current_leader c nodes, OnRequestTimeout c request info) of
        (Inr leader, Inr calls) \<Rightarrow> Comm_SendTransaction leader request \<in> set calls
      | _ \<Rightarrow> False)"

definition complains :: "Controller \<Rightarrow> bytes \<Rightarrow> RequestInfo \<Rightarrow> bool" where
  "complains c request info =
     (case OnLeaderFwdRequestTimeout c request info of
        Inr calls \<Rightarrow> FailureDetector_Complain \<in> set calls
      | Inl p \<Rightarrow> False)"

section \<open>consensus.go\<close>

text \<open>
  The pool options that \<open>Consensus.Start\<close> builds. A \<open>time.Duration\<close> is a signed 64-bit
  count of nanoseconds and its division truncates towards zero. The constant
  \<open>DefaultRequestTimeout\<close> of package \<open>bft\<close> is declared outside the sources; it is a
  parameter here.
\<close>

record PoolOptions =
  QueueSize :: int
  RequestTimeout :: int
  LeaderFwdTimeout :: int
  AutoRemoveTimeout :: int

definition DefaultRequestPoolSize :: int where
  "DefaultRequestPoolSize = 200"

definition Start_opts :: "int \<Rightarrow> PoolOptions" where
  "Start_opts DefaultRequestTimeout =
     \<lparr>QueueSize = DefaultRequestPoolSize,
      RequestTimeout = DefaultRequestTimeout sdiv 100,
      LeaderFwdTimeout = DefaultRequestTimeout sdiv 5,
      AutoRemoveTimeout = DefaultRequestTimeout\<rparr>"

text \<open>
  The controller as the composite literal in \<open>Consensus.Start\<close> builds it: \<open>ID\<close> and \<open>N\<close>
  are set, the fields the controller manages itself have their zero values.
\<close>

definition new_Controller :: "uint64 \<Rightarrow> uint64 \<Rightarrow> Controller" where
  "new_Controller selfID n =
     \<lparr>ID = selfID, N = n, quorum = 0,
      currView = \<lparr>View_N = 0, LeaderID = 0, SelfID = 0, Quorum = 0, Number = 0,
                  ProposalSequence = 0\<rparr>,
      currViewNumber = 0, viewEnd = None, leaderToken = None\<rparr>"

section \<open>Invariant of a vote set in use\<close>

text \<open>
  The votes that entered the channel, together with a pending one, come from pairwise
  different senders, and each of these senders is marked in \<open>voted\<close>.
\<close>

definition pending_list :: "voteSet_run \<Rightarrow> vote list" where
  "pending_list st = (case pending st of None \<Rightarrow> [] | Some v \<Rightarrow> [v])"

definition vs_inv :: "voteSet_run \<Rightarrow> bool" where
  "vs_inv st =
     (distinct (map sender (ever_added st @ pending_list st)) \<and>
      (case voted (vset st) of
         None \<Rightarrow> ever_added st @ pending_list st = []
       | Some m \<Rightarrow> list_all (\<lambda>v. m (sender v) \<noteq> None) (ever_added st @ pending_list st)))"

section \<open>Messages: view number and proposal sequence\<close>

text \<open>
  C9. For a message that contains none of \<open>PrePrepare\<close>, \<open>Prepare\<close> and \<open>Commit\<close> (the nil
  message included), \<open>viewNumber\<close> and \<open>proposalSequence\<close> both return \<open>math.MaxUint64\<close>,
  that is \<open>2 ^ 64 - 1\<close>; for a message that contains one of the three they return the
  \<open>View\<close> and the \<open>Seq\<close> of that sub-message. Both functions are total: the model has no
  failing branch because the source has none.
\<close>

theorem viewNumber_proposalSequence_cases:
  "(GetPrePrepare m = None \<and> GetPrepare m = None \<and> GetCommit m = None \<longrightarrow>
      viewNumber m = MaxUint64 \<and> proposalSequence m = MaxUint64 \<and>
      unat (viewNumber m) = 2 ^ 64 - 1 \<and> unat (proposalSequence m) = 2 ^ 64 - 1) \<and>
   (\<forall>pp. GetPrePrepare m = Some pp \<longrightarrow>
      viewNumber m = pp_View pp \<and> proposalSequence m = pp_Seq pp) \<and>
   (\<forall>prp. GetPrepare m = Some prp \<longrightarrow>
      viewNumber m = prp_View prp \<and> proposalSequence m = prp_Seq prp) \<and>
   (\<forall>cmt. GetCommit m = Some cmt \<longrightarrow>
      viewNumber m = cmt_View cmt \<and> proposalSequence m = cmt_Seq cmt)"
proof -
  have u: "unat MaxUint64 = 2 ^ 64 - 1"
    by (simp add: MaxUint64_def)
  show ?thesis
  proof (cases m)
    case None
    then show ?thesis by (simp add: viewNumber_def proposalSequence_def u)
  next
    case (Some msg)
    obtain co where msg: "msg = Message co" by (cases msg)
    show ?thesis
    proof (cases co)
      case None
      with Some msg show ?thesis by (simp add: viewNumber_def proposalSequence_def u)
    next
      case (Some ct)
      with \<open>m = Some msg\<close> msg show ?thesis
        by (cases ct) (simp_all add: viewNumber_def proposalSequence_def u)
    qed
  qed
qed

theorem viewNumber_proposalSequence_cases_witness:
  "viewNumber (Some (Message (Some (C_Prepare \<lparr>prp_View = 3, prp_Seq = 7, prp_Digest = ''d'', prp_Signature = []\<rparr>)))) = 3 \<and>
   proposalSequence (Some (Message (Some (C_Prepare \<lparr>prp_View = 3, prp_Seq = 7, prp_Digest = ''d'', prp_Signature = []\<rparr>)))) = 7 \<and>
   viewNumber (Some (Message (Some C_HeartBeat))) = 18446744073709551615 \<and>
   proposalSequence None = 18446744073709551615"
  using viewNumber_proposalSequence_cases [of "Some (Message (Some (C_Prepare \<lparr>prp_View = 3, prp_Seq = 7, prp_Digest = ''d'', prp_Signature = []\<rparr>)))"]
    viewNumber_proposalSequence_cases [of "Some (Message (Some C_HeartBeat))"]
    viewNumber_proposalSequence_cases [of None]
  by (simp add: MaxUint64_def)

section \<open>Leader selection\<close>

text \<open>
  On a membership of \<open>n\<close> nodes, \<open>getLeaderID\<close> returns the element at index
  \<open>view mod n\<close> of the sorted slice.
\<close>

lemma getLeaderID_sorted_index:
  assumes "length nodes = unat n" and "n \<noteq> 0"
  shows "getLeaderID v n nodes = (sort nodes, Inr (sort nodes ! (unat v mod unat n)))"
proof -
  have "unat n \<noteq> 0" using assms(2) by (simp add: unat_eq_0)
  then have "unat v mod unat n < length (sort nodes)" using assms(1) by simp
  then show ?thesis using assms(2) by (simp add: getLeaderID_def Let_def unat_mod)
qed

text \<open>
  C1. The leader of view \<open>v\<close> is \<open>sort(nodes)[v mod N]\<close>, and the controller's \<open>leaderID\<close>
  is meant to agree with that rule. It does not: \<open>Controller.leaderID\<close> returns
  \<open>view mod N\<close> itself and never consults the identities. For the four nodes
  \<open>1, 2, 3, 4\<close> at view \<open>0\<close> the rule names node \<open>1\<close>, while the controller of node
  \<open>1\<close> computes leader \<open>0\<close>, which is no member at all.
\<close>

theorem leaderID_ignores_membership:
  "leaderID (new_Controller 1 4) = Inr 0 \<and>
   getLeaderID 0 4 [1, 2, 3, 4] = ([1, 2, 3, 4], Inr 1) \<and>
   (0 :: uint64) \<notin> set [1, 2, 3, 4]"
  by (simp add: leaderID_def new_Controller_def getCurrentViewNumber_def getLeaderID_def)

section \<open>Quorum size\<close>

lemma ulp_of_small: "a < 2 ^ 53 \<Longrightarrow> ulp_of a = 1"
  by (subst ulp_of.simps) simp

lemma ulp_of_2_53: "ulp_of 9007199254740992 = 2"
  by (subst ulp_of.simps) (simp add: ulp_of_small)

lemma round_to_float64_exact:
  assumes "\<bar>i\<bar> \<le> 2 ^ 53"
  shows "round_to_float64 i = i"
proof (cases "\<bar>i\<bar> < 2 ^ 53")
  case True
  then have "ulp_of \<bar>i\<bar> = 1" by (rule ulp_of_small)
  then have "round_to_float64 i = sgn i * \<bar>i\<bar>"
    by (simp add: round_to_float64_def Let_def)
  then show ?thesis by (simp add: sgn_mult_abs)
next
  case False
  with assms have a: "\<bar>i\<bar> = 9007199254740992" by simp
  then have "round_to_float64 i = sgn i * \<bar>i\<bar>"
    by (simp add: round_to_float64_def ulp_of_2_53 Let_def)
  then show ?thesis by (simp add: sgn_mult_abs)
qed

lemma int64_wrap_id: "- (2 ^ 63) \<le> i \<Longrightarrow> i < 2 ^ 63 \<Longrightarrow> int64_wrap i = i"
  unfolding int64_wrap_def by (simp add: signed_take_bit_int_eq_self)

lemma sdiv_nonneg: "0 \<le> a \<Longrightarrow> a sdiv 3 = a div (3::int)"
  by (simp add: signed_divide_int_def sgn_if)

lemma sint_small:
  assumes "uint (n :: uint64) < 2 ^ 63"
  shows "sint n = uint n"
proof -
  have "- (2 ^ 63) \<le> uint n"
    by (rule order_trans [of _ 0]) simp_all
  with assms show ?thesis
    by (simp add: sint_uint signed_take_bit_int_eq_self)
qed

lemma computeQuorum_small:
  assumes lo: "1 \<le> uint n" and hi: "uint n \<le> 6755399441055744"
  shows "computeQuorum n = Some ((uint n + (uint n - 1) div 3 + 2) div 2, (uint n - 1) div 3)"
proof -
  let ?N = "uint n"
  let ?F = "(?N - 1) div 3"
  have s: "sint n = ?N" using hi by (intro sint_small) simp
  have F: "int64_wrap (sint n - 1) sdiv 3 = ?F"
    using lo hi by (simp add: s int64_wrap_id sdiv_nonneg)
  have F0: "0 \<le> ?F" using lo by simp
  have sum: "?N + ?F + 1 \<le> 9007199254740992" using lo hi by linarith
  have r1: "float64_of_uint64 n = ?N"
    unfolding float64_of_uint64_def using lo hi by (intro round_to_float64_exact) simp
  have r2: "float64_of_int ?F = ?F"
    unfolding float64_of_int_def using F0 sum lo by (intro round_to_float64_exact) simp
  have r3: "float64_add ?N ?F = ?N + ?F"
    unfolding float64_add_def using F0 sum lo by (intro round_to_float64_exact) simp
  have r4: "float64_add (?N + ?F) 1 = ?N + ?F + 1"
    unfolding float64_add_def using F0 sum lo by (intro round_to_float64_exact) simp
  have c: "math_Ceil (float64_half (?N + ?F + 1)) = (?N + ?F + 2) div 2"
  proof -
    have "\<lceil>rat_of_int (?N + ?F + 1) / 2\<rceil> = - (- (?N + ?F + 1) div 2)"
      using ceiling_divide_eq_div [of "?N + ?F + 1" 2, where ?'a = rat] by simp
    also have "\<dots> = (?N + ?F + 2) div 2" by linarith
    finally show ?thesis by (simp add: math_Ceil_def float64_half_def)
  qed
  have q: "int_of_float64 ((?N + ?F + 2) div 2) = Some ((?N + ?F + 2) div 2)"
    unfolding int_of_float64_def using F0 sum lo by simp
  show ?thesis
    unfolding computeQuorum_def Let_def F r1 r2 r3 r4 c q by simp
qed

lemma quorum_intersection:
  assumes "finite U" "A \<subseteq> U" "B \<subseteq> U"
  shows "int (card A) + int (card B) - int (card U) \<le> int (card (A \<inter> B))"
proof -
  have fA: "finite A" and fB: "finite B" using assms by (auto intro: finite_subset)
  have "card (A \<union> B) \<le> card U" using assms by (intro card_mono) auto
  moreover have "card A + card B = card (A \<union> B) + card (A \<inter> B)"
    using fA fB by (rule card_Un_Int)
  ultimately show ?thesis by linarith
qed

text \<open>
  C2. For every cluster size \<open>n\<close> with \<open>1 \<le> n \<le> 3 * 2 ^ 51 = 6755399441055744\<close>,
  \<open>computeQuorum\<close> returns \<open>F = \<lfloor>(n - 1) / 3\<rfloor>\<close> and \<open>Q = \<lceil>(n + F + 1) / 2\<rceil>\<close>, these
  satisfy \<open>2 * Q - n \<ge> F + 1\<close>, and any two sets of \<open>Q\<close> nodes out of the \<open>n\<close> share at
  least \<open>F + 1\<close> nodes. Up to this bound every \<open>float64\<close> operation of the function is
  exact.
\<close>

theorem computeQuorum_correct:
  assumes "1 \<le> uint n" and "uint n \<le> 6755399441055744"
  shows "quorum_spec n \<and>
    (\<forall>Q F (U :: uint64 set) A B.
       computeQuorum n = Some (Q, F) \<and> finite U \<and> int (card U) = uint n \<and>
       A \<subseteq> U \<and> B \<subseteq> U \<and> int (card A) = Q \<and> int (card B) = Q \<longrightarrow>
       F + 1 \<le> int (card (A \<inter> B)))"
proof -
  let ?N = "uint n"
  let ?F = "(?N - 1) div 3"
  have "\<lceil>(rat_of_int ?N + rat_of_int ?F + 1) / 2\<rceil> = \<lceil>rat_of_int (?N + ?F + 1) / 2\<rceil>"
    by simp
  also have "\<dots> = - (- (?N + ?F + 1) div 2)"
    using ceiling_divide_eq_div [of "?N + ?F + 1" 2, where ?'a = rat] by simp
  also have "\<dots> = (?N + ?F + 2) div 2" by linarith
  finally have c: "\<lceil>(rat_of_int ?N + rat_of_int ?F + 1) / 2\<rceil> = (?N + ?F + 2) div 2" .
  have i: "?F + 1 \<le> 2 * ((?N + ?F + 2) div 2) - ?N" by linarith
  have spec: "quorum_spec n"
    unfolding quorum_spec_def computeQuorum_small [OF assms] using c i by simp
  have "F + 1 \<le> int (card (A \<inter> B))"
    if "computeQuorum n = Some (Q, F)" "finite U" "int (card U) = ?N" "A \<subseteq> U" "B \<subseteq> U"
      "int (card A) = Q" "int (card B) = Q"
    for Q F and U A B :: "uint64 set"
  proof -
    from that(1) have Q: "Q = (?N + ?F + 2) div 2" and F: "F = ?F"
      unfolding computeQuorum_small [OF assms] by auto
    have "Q + Q - ?N \<le> int (card (A \<inter> B))"
      using quorum_intersection [OF that(2) that(4) that(5)] that(3) that(6) that(7) by simp
    with i Q F show ?thesis by linarith
  qed
  with spec show ?thesis by blast
qed

theorem computeQuorum_correct_witness:
  "1 \<le> uint (4 :: uint64) \<and> uint (4 :: uint64) \<le> 6755399441055744 \<and>
   quorum_spec 4 \<and> computeQuorum 4 = Some (3, 1) \<and>
   (1 :: int) + 1 \<le> int (card ({1, 2, 3} \<inter> {2, 3, 4 :: uint64}))"
proof -
  have h1: "1 \<le> uint (4 :: uint64)" and h2: "uint (4 :: uint64) \<le> 6755399441055744"
    by simp_all
  have q: "computeQuorum 4 = Some (3, 1)"
    by code_simp
  note t = computeQuorum_correct [OF h1 h2]
  have s: "quorum_spec 4"
    using t by (rule conjunct1)
  have i: "(1 :: int) + 1 \<le> int (card ({1, 2, 3} \<inter> {2, 3, 4 :: uint64}))"
    by (rule t [THEN conjunct2, rule_format, of 3 1 "{1, 2, 3, 4}"]) (simp add: q)
  show ?thesis
    by (rule conjI [OF h1 conjI [OF h2 conjI [OF s conjI [OF q i]]]])
qed

text \<open>
  As stated for every \<open>n \<ge> 1\<close> the property fails at the first size past the bound,
  \<open>n = 3 * 2 ^ 51 + 1\<close>: the sum \<open>n + F\<close> is \<open>2 ^ 53 + 1\<close>, which rounds to \<open>2 ^ 53\<close>, and
  so does the sum with one more added; the function returns \<open>Q = 2 ^ 52\<close> where the
  formula gives \<open>2 ^ 52 + 1\<close>, and \<open>2 * Q - n\<close> is below \<open>F + 1\<close>.
\<close>

theorem computeQuorum_large_counterexample: "\<not> quorum_spec 6755399441055745"
  unfolding quorum_spec_def by code_simp

text \<open>
  C10. For every cluster size the quorum computed by the controller's method
  \<open>computeQuorum\<close> is the \<open>Q\<close> component that the package-level \<open>computeQuorum\<close> returns
  (and where the conversion of one has no fixed result, neither has the other).
\<close>

theorem Controller_computeQuorum_eq:
  "map_option fst (Controller_computeQuorum c) = map_option fst (computeQuorum (N c))"
  by (simp add: Controller_computeQuorum_def computeQuorum_def Let_def split: option.splits)

section \<open>Vote sets\<close>

lemma vs_inv_start: "vs_inv (voteSet_start n vs0)"
  by (simp add: vs_inv_def voteSet_start_def clear_def ever_added_def pending_list_def)

lemma registerVote_invalid: "\<not> validVote v0 voter m \<Longrightarrow> registerVote v0 voter m = Returned v0"
  by (simp add: registerVote_def)

lemma registerVote_double:
  "voted v0 = Some M \<Longrightarrow> M voter \<noteq> None \<Longrightarrow> registerVote v0 voter m = Returned v0"
  by (simp add: registerVote_def)

lemma vs_inv_register:
  assumes "vs_inv st"
  shows "vs_inv (voteSet_step st (RegisterVote voter m))"
  using assms
  by (auto simp: vs_inv_def registerVote_def ever_added_def pending_list_def chan_send_def
        Let_def list_all_iff
      split: option.splits if_splits)

lemma vs_inv_receive:
  assumes "vs_inv st"
  shows "vs_inv (voteSet_step st ReceiveVote)"
  using assms
  by (auto simp: vs_inv_def ever_added_def pending_list_def chan_send_def list_all_iff
      split: option.splits list.splits)

lemma vs_inv_step: "vs_inv st \<Longrightarrow> vs_inv (voteSet_step st op)"
  by (cases op) (simp_all only: vs_inv_register vs_inv_receive)

lemma vs_inv_foldl: "vs_inv st \<Longrightarrow> vs_inv (foldl voteSet_step st ops)"
  by (induction ops arbitrary: st) (simp_all add: vs_inv_step)

text \<open>
  C3. A message that fails \<open>validVote\<close> leaves the vote set as it is; a vote from a voter
  already in \<open>voted\<close> is ignored: the call returns, without a panic, and changes neither
  the map nor the channel; and whatever calls of \<open>registerVote\<close> and receives follow a
  \<open>clear\<close>, the votes that ever entered the channel come from pairwise different
  voters.
\<close>

theorem registerVote_one_vote_per_voter:
  "(\<not> validVote v0 voter m \<longrightarrow> registerVote v0 voter m = Returned v0) \<and>
   (\<forall>M. voted v0 = Some M \<and> M voter \<noteq> None \<longrightarrow> registerVote v0 voter m = Returned v0) \<and>
   distinct (map sender (ever_added (foldl voteSet_step (voteSet_start n v1) ops)))"
proof -
  have "vs_inv (foldl voteSet_step (voteSet_start n v1) ops)"
    by (rule vs_inv_foldl [OF vs_inv_start])
  then have "distinct (map sender (ever_added (foldl voteSet_step (voteSet_start n v1) ops)))"
    by (simp add: vs_inv_def)
  then show ?thesis
    by (simp add: registerVote_invalid registerVote_double)
qed

theorem registerVote_one_vote_per_voter_witness:
  "registerVote (clear 4 \<lparr>validVote = (\<lambda>v m. v \<noteq> 9), voted = None, votes = None\<rparr>) 9 None =
     Returned (clear 4 \<lparr>validVote = (\<lambda>v m. v \<noteq> 9), voted = None, votes = None\<rparr>) \<and>
   registerVote \<lparr>validVote = (\<lambda>v m. v \<noteq> 9), voted = Some [1 \<mapsto> ()], votes = None\<rparr> 1 None =
     Returned \<lparr>validVote = (\<lambda>v m. v \<noteq> 9), voted = Some [1 \<mapsto> ()], votes = None\<rparr> \<and>
   distinct (map sender (ever_added (foldl voteSet_step
     (voteSet_start 4 \<lparr>validVote = (\<lambda>v m. v \<noteq> 9), voted = None, votes = None\<rparr>)
     [RegisterVote 1 None, RegisterVote 1 None, RegisterVote 9 None, RegisterVote 2 None,
      ReceiveVote, RegisterVote 2 None]))) \<and>
   map sender (ever_added (foldl voteSet_step
     (voteSet_start 4 \<lparr>validVote = (\<lambda>v m. v \<noteq> 9), voted = None, votes = None\<rparr>)
     [RegisterVote 1 None, RegisterVote 1 None, RegisterVote 9 None, RegisterVote 2 None,
      ReceiveVote, RegisterVote 2 None])) = [1, 2]"
proof -
  let ?V = "\<lparr>validVote = (\<lambda>v m. v \<noteq> (9 :: uint64)), voted = None, votes = None\<rparr>"
  let ?W = "\<lparr>validVote = (\<lambda>v m. v \<noteq> (9 :: uint64)), voted = Some [1 \<mapsto> ()], votes = None\<rparr>"
  let ?ops = "[RegisterVote 1 None, RegisterVote 1 None, RegisterVote 9 None,
    RegisterVote 2 None, ReceiveVote, RegisterVote 2 None]"
  have a: "\<not> validVote (clear 4 ?V) 9 None"
    by (simp add: clear_def)
  have b: "voted ?W = Some [1 \<mapsto> ()] \<and> [(1 :: uint64) \<mapsto> ()] 1 \<noteq> None"
    by simp
  note t1 = registerVote_one_vote_per_voter [of "clear 4 ?V" 9 None 4 ?V ?ops]
  note t2 = registerVote_one_vote_per_voter [of ?W 1 None 4 ?V ?ops]
  have 1: "registerVote (clear 4 ?V) 9 None = Returned (clear 4 ?V)"
    by (rule t1 [THEN conjunct1, rule_format, OF a])
  have 2: "registerVote ?W 1 None = Returned ?W"
    by (rule t2 [THEN conjunct2, THEN conjunct1, rule_format, OF b])
  have 3: "distinct (map sender (ever_added (foldl voteSet_step (voteSet_start 4 ?V) ?ops)))"
    by (rule t1 [THEN conjunct2, THEN conjunct2])
  have 4: "map sender (ever_added (foldl voteSet_step (voteSet_start 4 ?V) ?ops)) = [1, 2]"
    by (simp add: voteSet_start_def clear_def registerVote_def chan_send_def ever_added_def
        Let_def)
  show ?thesis
    by (rule conjI [OF 1 conjI [OF 2 conjI [OF 3 4]]])
qed

text \<open>On a cleared vote set with room in the channel, a valid vote is marked and sent.\<close>

lemma registerVote_first_vote:
  assumes "validVote v0 voter m" and "0 < unat n"
  shows "registerVote (clear n v0) voter m =
    Returned ((clear n v0)\<lparr>voted := Some [voter \<mapsto> ()],
      votes := Some \<lparr>cap = unat n, buf = [\<lparr>vote_Message = m, sender = voter\<rparr>],
        history = [\<lparr>vote_Message = m, sender = voter\<rparr>]\<rparr>\<rparr>)"
  using assms by (simp add: registerVote_def clear_def chan_send_def Let_def)

section \<open>The controller\<close>

lemma changeView_currViewNumber:
  "currViewNumber (snd (snd (changeView v s c))) =
     (if v < currViewNumber c \<or> viewEnd c = None then currViewNumber c else v)"
  by (simp add: changeView_def relinquishLeaderToken_def getCurrentViewNumber_def
      setCurrentViewNumber_def startView_def iAmTheLeader_def leaderID_def acquireLeaderToken_def
      Let_def split: option.splits)



text \<open>
  A controller is started once \<open>Start\<close> has returned: then \<open>viewEnd\<close> is set, and
  \<open>changeView\<close> keeps it set.
\<close>

lemma Controller_Start_started:
  "Controller_Start v s c = Some (None, calls, c') \<Longrightarrow>
   viewEnd c' \<noteq> None \<and> currViewNumber c' = v \<and> N c' = N c \<and> N c \<noteq> 0"
  by (auto simp: Controller_Start_def startView_def iAmTheLeader_def leaderID_def
      getCurrentViewNumber_def acquireLeaderToken_def Let_def
      split: option.splits prod.splits if_splits)

lemma changeView_keeps_started:
  "viewEnd c \<noteq> None \<Longrightarrow> viewEnd (snd (snd (changeView v s c))) \<noteq> None"
  by (auto simp: changeView_def relinquishLeaderToken_def getCurrentViewNumber_def
      setCurrentViewNumber_def startView_def iAmTheLeader_def leaderID_def acquireLeaderToken_def
      Let_def split: option.splits)





text \<open>The same over the view changes that the run loop applies one after the other.\<close>

lemma changeViews_monotone: "currViewNumber c \<le> currViewNumber (changeViews xs c)"
proof (induction xs arbitrary: c)
  case Nil
  show ?case by simp
next
  case (Cons x rest)
  obtain v s where x: "x = (v, s)" by (cases x)
  obtain p calls c' where r: "changeView v s c = (p, calls, c')" by (cases "changeView v s c")
  have step: "currViewNumber c \<le> currViewNumber c'"
    using changeView_currViewNumber [of v s c] r by (auto split: if_splits)
  show ?case
  proof (cases p)
    case None
    with x r step Cons.IH [of c'] show ?thesis by simp
  next
    case (Some a)
    with x r step show ?thesis by simp
  qed
qed

lemma ProcessMessages_view_message:
  "IsViewMessage m \<Longrightarrow>
   ProcessMessages c s m =
     [View_HandleMessage s m, Logger_Debugf ''Node %d handled message %v from %d with seq %d'']"
  by (simp add: ProcessMessages_def)

text \<open>
  C5. \<open>ProcessMessages\<close> hands a view-phase message to the current view, and is meant to
  hand view-change, heartbeat and state-transfer messages to the view changer and the
  heartbeat monitor. The second half is missing: for such a message the controller
  calls no component and only writes the debug line.
\<close>

theorem ProcessMessages_drops_other_messages:
  "ProcessMessages c s (Some (Message (Some C_ViewChange))) =
     [Logger_Debugf ''Node %d handled message %v from %d with seq %d''] \<and>
   ProcessMessages c s (Some (Message (Some C_HeartBeat))) =
     [Logger_Debugf ''Node %d handled message %v from %d with seq %d''] \<and>
   ProcessMessages c s (Some (Message (Some C_StateTransferRequest))) =
     [Logger_Debugf ''Node %d handled message %v from %d with seq %d'']"
  by (simp add: ProcessMessages_def IsViewMessage_def)

lemma OnRequestTimeout_cases:
  "leaderID c = Inr leader \<Longrightarrow>
   OnRequestTimeout c request info =
     (if leader = ID c
      then Inr [Logger_Warnf
        ''Request %s timeout expired, this node is the leader, nothing to do'']
      else Inr [Logger_Warnf ''Request %s timeout expired, forwarding request to leader: %d'',
        Comm_SendTransaction leader request])"
  by (simp add: OnRequestTimeout_def iAmTheLeader_def)

lemma OnLeaderFwdRequestTimeout_cases:
  "leaderID c = Inr leader \<Longrightarrow>
   OnLeaderFwdRequestTimeout c request info =
     (if leader = ID c
      then Inr [Logger_Warnf
        ''Request %s leader-forwarding timeout expired, this node is the leader, nothing to do'']
      else Inr [Logger_Warnf
        ''Request %s leader-forwarding timeout expired, complaining about leader: %d'',
        FailureDetector_Complain])"
  by (simp add: OnLeaderFwdRequestTimeout_def iAmTheLeader_def)

text \<open>
  C6. Let \<open>leader\<close> be the current leader of the controller's view on a membership of
  \<open>N\<close> nodes, and let the controller's own leader computation name that node (C1 is
  about the memberships where it names another). When the request timeout of a pooled
  request expires, the request is forwarded to the current leader with
  \<open>Comm.SendTransaction\<close> unless this node is itself the current leader; when the
  leader-forward timeout expires, \<open>FailureDetector.Complain\<close> is called unless this node
  is itself the current leader. A node that is the current leader only logs a warning
  in both handlers.
\<close>

theorem timeouts_unless_leader:
  assumes "length nodes = unat (N c)"
    and "current_leader c nodes = Inr leader"
    and "leaderID c = Inr leader"
  shows "(ID c \<noteq> leader \<longrightarrow>
      forwards_to_current_leader c nodes request info \<and> complains c request info \<and>
      OnRequestTimeout c request info =
        Inr [Logger_Warnf ''Request %s timeout expired, forwarding request to leader: %d'',
          Comm_SendTransaction leader request] \<and>
      OnLeaderFwdRequestTimeout c request info =
        Inr [Logger_Warnf
          ''Request %s leader-forwarding timeout expired, complaining about leader: %d'',
          FailureDetector_Complain]) \<and>
    (ID c = leader \<longrightarrow>
      \<not> forwards_to_current_leader c nodes request info \<and> \<not> complains c request info \<and>
      OnRequestTimeout c request info =
        Inr [Logger_Warnf ''Request %s timeout expired, this node is the leader, nothing to do''] \<and>
      OnLeaderFwdRequestTimeout c request info =
        Inr [Logger_Warnf
          ''Request %s leader-forwarding timeout expired, this node is the leader, nothing to do''])"
  using assms(2)
  by (auto simp: forwards_to_current_leader_def complains_def
      OnRequestTimeout_cases [OF assms(3)] OnLeaderFwdRequestTimeout_cases [OF assms(3)])

theorem timeouts_unless_leader_witness:
  "length [0, 1, 2, 3 :: uint64] = unat (N (new_Controller 1 4)) \<and>
   current_leader (new_Controller 1 4) [0, 1, 2, 3] = Inr 0 \<and>
   leaderID (new_Controller 1 4) = Inr 0 \<and>
   forwards_to_current_leader (new_Controller 1 4) [0, 1, 2, 3] [1, 2, 3]
     \<lparr>ClientID = ''alice'', RequestInfo_ID = ''1''\<rparr> \<and>
   complains (new_Controller 1 4) [1, 2, 3] \<lparr>ClientID = ''alice'', RequestInfo_ID = ''1''\<rparr> \<and>
   OnRequestTimeout (new_Controller 0 4) [1, 2, 3] \<lparr>ClientID = ''alice'', RequestInfo_ID = ''1''\<rparr> =
     Inr [Logger_Warnf ''Request %s timeout expired, this node is the leader, nothing to do'']"
proof -
  let ?nodes = "[0, 1, 2, 3 :: uint64]"
  let ?info = "\<lparr>ClientID = ''alice'', RequestInfo_ID = ''1''\<rparr>"
  have n1: "length ?nodes = unat (N (new_Controller 1 4))"
    and n0: "length ?nodes = unat (N (new_Controller 0 4))"
    by (simp_all add: new_Controller_def)
  have r1: "current_leader (new_Controller 1 4) ?nodes = Inr 0"
    and r0: "current_leader (new_Controller 0 4) ?nodes = Inr 0"
    by (simp_all add: current_leader_def getLeaderID_def new_Controller_def
        getCurrentViewNumber_def)
  have l1: "leaderID (new_Controller 1 4) = Inr 0"
    and l0: "leaderID (new_Controller 0 4) = Inr 0"
    by (simp_all add: leaderID_def new_Controller_def getCurrentViewNumber_def)
  have i1: "ID (new_Controller 1 4) \<noteq> 0" and i0: "ID (new_Controller 0 4) = 0"
    by (simp_all add: new_Controller_def)
  note t1 = timeouts_unless_leader [OF n1 r1 l1, of "[1, 2, 3]" ?info]
  note t0 = timeouts_unless_leader [OF n0 r0 l0, of "[1, 2, 3]" ?info]
  from t1 i1 have a: "forwards_to_current_leader (new_Controller 1 4) ?nodes [1, 2, 3] ?info"
    and b: "complains (new_Controller 1 4) [1, 2, 3] ?info"
    by blast+
  from t0 i0 have c: "OnRequestTimeout (new_Controller 0 4) [1, 2, 3] ?info =
      Inr [Logger_Warnf ''Request %s timeout expired, this node is the leader, nothing to do'']"
    by blast
  show ?thesis
    by (rule conjI [OF n1 conjI [OF r1 conjI [OF l1 conjI [OF a conjI [OF b c]]]]])
qed

text \<open>
  Without the exception for the leader the statement fails. Among the four nodes
  \<open>0, 1, 2, 3\<close> at view \<open>0\<close> the current leader is node \<open>0\<close>, and the controller of
  node \<open>0\<close> computes the same; that node neither forwards the request nor complains.
\<close>

theorem timeouts_leader_counterexample:
  "current_leader (new_Controller 0 4) [0, 1, 2, 3] = Inr 0 \<and>
   \<not> forwards_to_current_leader (new_Controller 0 4) [0, 1, 2, 3] [1, 2, 3]
       \<lparr>ClientID = ''alice'', RequestInfo_ID = ''1''\<rparr> \<and>
   \<not> complains (new_Controller 0 4) [1, 2, 3] \<lparr>ClientID = ''alice'', RequestInfo_ID = ''1''\<rparr>"
  by (simp add: forwards_to_current_leader_def current_leader_def getLeaderID_def
      complains_def OnRequestTimeout_def OnLeaderFwdRequestTimeout_def iAmTheLeader_def
      leaderID_def new_Controller_def getCurrentViewNumber_def)

text \<open>
  C7. \<open>SubmitRequest\<close> returns an error exactly when \<open>RequestPool.Submit\<close> returns one for
  the payload, and then that very error; on success it returns nil. The pool is left
  as \<open>Submit\<close> leaves it, \<open>Submit\<close> is called once, the only other calls are to the
  request inspector and the logger, and the controller is unchanged.
\<close>

theorem SubmitRequest_mirrors_pool:
  "fst (SubmitRequest pool c request p) = fst (Submit pool request p) \<and>
   fst (snd (snd (SubmitRequest pool c request p))) = snd (Submit pool request p) \<and>
   snd (snd (snd (SubmitRequest pool c request p))) = c \<and>
   length (filter (\<lambda>e. e = RequestPool_Submit request)
     (fst (snd (SubmitRequest pool c request p)))) = 1 \<and>
   set (fst (snd (SubmitRequest pool c request p))) \<subseteq>
     {RequestInspector_RequestID request, RequestPool_Submit request,
      Logger_Warnf ''Request %s was not submitted, error: %s'',
      Logger_Debugf ''Request %s was submitted''}"
  by (simp add: SubmitRequest_def split: prod.splits option.splits)

section \<open>Pool options\<close>

text \<open>
  C8. The pool options built by \<open>Consensus.Start\<close> are \<open>RequestTimeout =
  DefaultRequestTimeout / 100\<close>, \<open>LeaderFwdTimeout = DefaultRequestTimeout / 5\<close> and
  \<open>AutoRemoveTimeout = DefaultRequestTimeout\<close>; for a default of at least five
  nanoseconds this gives \<open>RequestTimeout < LeaderFwdTimeout < AutoRemoveTimeout\<close>.
\<close>

theorem Start_opts_ratio:
  "RequestTimeout (Start_opts d) = d sdiv 100 \<and>
   LeaderFwdTimeout (Start_opts d) = d sdiv 5 \<and>
   AutoRemoveTimeout (Start_opts d) = d \<and>
   (5 \<le> d \<longrightarrow>
      RequestTimeout (Start_opts d) < LeaderFwdTimeout (Start_opts d) \<and>
      LeaderFwdTimeout (Start_opts d) < AutoRemoveTimeout (Start_opts d))"
proof -
  have "d div 100 < d div 5 \<and> d div 5 < d" if "5 \<le> d"
    using that by linarith
  then show ?thesis
    by (auto simp: Start_opts_def signed_divide_int_def sgn_if)
qed

theorem Start_opts_ratio_witness:
  "(5::int) \<le> 10000000000 \<and>
   RequestTimeout (Start_opts 10000000000) = 100000000 \<and>
   LeaderFwdTimeout (Start_opts 10000000000) = 2000000000 \<and>
   AutoRemoveTimeout (Start_opts 10000000000) = 10000000000 \<and>
   RequestTimeout (Start_opts 10000000000) < LeaderFwdTimeout (Start_opts 10000000000) \<and>
   LeaderFwdTimeout (Start_opts 10000000000) < AutoRemoveTimeout (Start_opts 10000000000)"
  using Start_opts_ratio [of 10000000000] by (simp add: signed_divide_int_def)

end
